theory Spec2Isabelle
  imports Main "HOL-Library.Sublist" "HOL-Library.Word"
begin

unbundle bit_operations_syntax

section \<open>Shell completion of podman: cmd/podman/common/completion.go\<close>

subsection \<open>Go values used by the completion code\<close>

text \<open>
  A Go string is a sequence of bytes, and \<open>len\<close> counts bytes: \<open>string\<close> (a list of
  \<open>char\<close>) is the same thing. A nil slice and an empty slice are both the empty list:
  the code only ranges over, appends to and returns its slices.

  A run-time panic of the Go code is a value of \<open>panic\<close>; a function that may panic
  returns \<open>panic + 'a\<close>, with \<open>Inl\<close> the panic.
\<close>

datatype panic = SliceBoundsOutOfRange | IndexOutOfRange | NilDereference

text \<open>\<open>strings.HasPrefix(s, prefix)\<close>:
  \<open>len(s) >= len(prefix) && s[0:len(prefix)] == prefix\<close>.\<close>

definition HasPrefix :: "string \<Rightarrow> string \<Rightarrow> bool" where
  "HasPrefix s pre = (length pre \<le> length s \<and> take (length pre) s = pre)"

text \<open>\<open>strings.TrimPrefix(s, prefix)\<close>.\<close>

definition TrimPrefix :: "string \<Rightarrow> string \<Rightarrow> string" where
  "TrimPrefix s pre = (if HasPrefix s pre then drop (length pre) s else s)"

text \<open>\<open>strings.ReplaceAll(s, old, new)\<close> for a non-empty \<open>old\<close> (the only use in the
  code): the non-overlapping occurrences of \<open>old\<close> are replaced from left to right.\<close>

function ReplaceAll :: "string \<Rightarrow> string \<Rightarrow> string \<Rightarrow> string" where
  "ReplaceAll s old new =
     (if s = [] \<or> old = [] then s
      else if HasPrefix s old then new @ ReplaceAll (drop (length old) s) old new
      else hd s # ReplaceAll (tl s) old new)"
  by pat_completeness auto
termination
  by (relation "measure (\<lambda>(s, old, new). length s)") auto

declare ReplaceAll.simps [simp del]

text \<open>The loop \<open>for _, x := range xs { ... }\<close> whose body updates the suggestions and
  may panic: the first panic ends the loop.\<close>

fun range_loop :: "('a \<Rightarrow> 's \<Rightarrow> panic + 's) \<Rightarrow> 'a list \<Rightarrow> 's \<Rightarrow> panic + 's" where
  "range_loop body [] s = Inr s"
| "range_loop body (x # xs) s =
     (case body x s of Inl e \<Rightarrow> Inl e | Inr s' \<Rightarrow> range_loop body xs s')"

subsection \<open>cobra.ShellCompDirective\<close>

text \<open>Modelled from the spec: the directive type of the command framework (cobra), whose
  declaration is not among the sources. The directive is a bit mask (a Go \<open>int\<close>) over
  the flags Error, NoSpace (no space appended) and NoFileComp (no file completion);
  flags combine with the bitwise or, and Default is the mask with no flag. The bits are
  those of cobra's declaration, \<open>Error = 1 << iota\<close> and then \<open>NoSpace\<close> and
  \<open>NoFileComp\<close>.\<close>

type_synonym ShellCompDirective = "64 word"

definition ShellCompDirectiveError :: ShellCompDirective where
  "ShellCompDirectiveError = 1"

definition ShellCompDirectiveNoSpace :: ShellCompDirective where
  "ShellCompDirectiveNoSpace = 2"

definition ShellCompDirectiveNoFileComp :: ShellCompDirective where
  "ShellCompDirectiveNoFileComp = 4"

definition ShellCompDirectiveDefault :: ShellCompDirective where
  "ShellCompDirectiveDefault = 0"

text \<open>A flag is set in a directive when the bitwise and of the two is not zero.\<close>

definition has_flag :: "ShellCompDirective \<Rightarrow> ShellCompDirective \<Rightarrow> bool" where
  "has_flag d f = (d AND f \<noteq> 0)"

type_synonym completion = "string list \<times> ShellCompDirective"

subsection \<open>The arity gate: validCurrentCmdLine\<close>

text \<open>
  Modelled from the spec: the recovery of the pair (need, got) from the cleaned message,
  which the code leaves to \<open>fmt.Sscanf(cleanErr, "%d arg(s), received %d", &need, &got)\<close>
  of the Go standard library; the scanner is not among the sources. The definitions
  below follow it for this one format: \<open>%d\<close> skips spaces and reads an optional sign
  and decimal digits into an \<open>int\<close> of 64 bits; a space of the format stands for one
  or more spaces of the input (or its end); every other character of the format must
  be the next character of the input; what follows the second number is not read. The
  scanner reads runes: a space is one of the runes of its space table, given here by
  the bytes of its UTF-8 encoding; every other rune that is not ASCII matches neither
  a digit, a sign nor a literal of the format.
\<close>

text \<open>The number of bytes of a leading space rune other than newline, 0 if there is
  none. The table: U+0009..U+000D, U+0020, U+0085, U+00A0, U+1680, U+2000..U+200A,
  U+2028, U+2029, U+202F, U+205F, U+3000.\<close>

definition space_width :: "string \<Rightarrow> nat" where
  "space_width s =
     (case map of_char s :: nat list of
        [] \<Rightarrow> 0
      | b0 # r0 \<Rightarrow>
          if b0 = 0x09 \<or> b0 = 0x0B \<or> b0 = 0x0C \<or> b0 = 0x0D \<or> b0 = 0x20 then 1
          else (case r0 of
            [] \<Rightarrow> 0
          | b1 # r1 \<Rightarrow>
              if b0 = 0xC2 \<and> (b1 = 0x85 \<or> b1 = 0xA0) then 2
              else (case r1 of
                [] \<Rightarrow> 0
              | b2 # r2 \<Rightarrow>
                  if b0 = 0xE1 \<and> b1 = 0x9A \<and> b2 = 0x80 then 3
                  else if b0 = 0xE2 \<and> b1 = 0x80 \<and>
                          ((0x80 \<le> b2 \<and> b2 \<le> 0x8A) \<or> b2 = 0xA8 \<or> b2 = 0xA9 \<or> b2 = 0xAF) then 3
                  else if b0 = 0xE2 \<and> b1 = 0x81 \<and> b2 = 0x9F then 3
                  else if b0 = 0xE3 \<and> b1 = 0x80 \<and> b2 = 0x80 then 3
                  else 0)))"

text \<open>\<open>ss.SkipSpace\<close> with \<open>nlIsSpace = false\<close>: spaces are skipped, a newline is
  the error "unexpected newline" (\<open>None\<close>).\<close>

function SkipSpace :: "string \<Rightarrow> string option" where
  "SkipSpace s =
     (if s = [] then Some s
      else if hd s = CHR 0x0A then None
      else if space_width s = 0 then Some s
      else SkipSpace (drop (space_width s) s))"
  by pat_completeness auto
termination
  by (relation "measure length") auto

declare SkipSpace.simps [simp del]

text \<open>A space of the format that does not follow a newline, in \<open>ss.advance\<close>: the
  input is at its end, or has a space that is not a newline; the spaces after it are
  skipped up to the next newline, which is left in the input.\<close>

function skip_blanks :: "string \<Rightarrow> string" where
  "skip_blanks s =
     (if s = [] \<or> hd s = CHR 0x0A \<or> space_width s = 0 then s
      else skip_blanks (drop (space_width s) s))"
  by pat_completeness auto
termination
  by (relation "measure length") auto

declare skip_blanks.simps [simp del]

definition advance_space :: "string \<Rightarrow> string option" where
  "advance_space s =
     (if s = [] then Some s
      else if hd s = CHR 0x0A \<or> space_width s = 0 then None
      else Some (skip_blanks s))"

text \<open>A run of literal characters of the format: each is read with
  \<open>mustReadRune\<close> and must be the next byte of the input.\<close>

definition advance_literal :: "string \<Rightarrow> string \<Rightarrow> string option" where
  "advance_literal lit s = (if HasPrefix s lit then Some (drop (length lit) s) else None)"

text \<open>\<open>strconv.ParseInt(tok, 10, 64)\<close> on the token \<open>scanInt\<close> collected: an optional
  sign and then digits and underscores, at least one. An underscore is a syntax
  error in base 10, a value outside of \<open>int64\<close> a range error.\<close>

definition is_digit :: "char \<Rightarrow> bool" where
  "is_digit c = (48 \<le> (of_char c :: nat) \<and> (of_char c :: nat) \<le> 57)"

definition digit_val :: "char \<Rightarrow> int" where
  "digit_val c = int (of_char c) - 48"

definition ParseInt :: "string \<Rightarrow> int option" where
  "ParseInt tok =
     (let neg = (tok \<noteq> [] \<and> hd tok = CHR ''-'');
          ds = (if tok \<noteq> [] \<and> (hd tok = CHR ''+'' \<or> hd tok = CHR ''-'') then tl tok else tok);
          un = foldl (\<lambda>a c. 10 * a + digit_val c) 0 ds
      in if ds \<noteq> [] \<and> list_all is_digit ds
         then (if neg then (if un \<le> 2 ^ 63 then Some (- un) else None)
               else (if un < 2 ^ 63 then Some un else None))
         else None)"

text \<open>\<open>ss.scanInt\<close> for the verb \<open>%d\<close> into an \<open>int\<close> of 64 bits: skip spaces, fail at
  the end of the input, accept one sign, then digits and underscores (one at least),
  and parse the token. The result is the number and the rest of the input.\<close>

definition scanInt :: "string \<Rightarrow> (int \<times> string) option" where
  "scanInt s =
     (case SkipSpace s of
        None \<Rightarrow> None
      | Some s1 \<Rightarrow>
          if s1 = [] then None
          else let sgn = (if hd s1 = CHR ''+'' \<or> hd s1 = CHR ''-'' then [hd s1] else []);
                   s2 = drop (length sgn) s1;
                   ds = takeWhile (\<lambda>c. is_digit c \<or> c = CHR ''_'') s2
               in if ds = [] then None
                  else (case ParseInt (sgn @ ds) of
                          None \<Rightarrow> None
                        | Some n \<Rightarrow> Some (n, drop (length ds) s2)))"

text \<open>The whole call: \<open>Some (need, got)\<close> when \<open>err == nil\<close>. Input after the second
  number is not looked at.\<close>

definition Sscanf_need_got :: "string \<Rightarrow> (int \<times> int) option" where
  "Sscanf_need_got s =
     (case scanInt s of None \<Rightarrow> None | Some (need, s1) \<Rightarrow>
      case advance_space s1 of None \<Rightarrow> None | Some s2 \<Rightarrow>
      case advance_literal ''arg(s),'' s2 of None \<Rightarrow> None | Some s3 \<Rightarrow>
      case advance_space s3 of None \<Rightarrow> None | Some s4 \<Rightarrow>
      case advance_literal ''received'' s4 of None \<Rightarrow> None | Some s5 \<Rightarrow>
      case advance_space s5 of None \<Rightarrow> None | Some s6 \<Rightarrow>
      case scanInt s6 of None \<Rightarrow> None | Some (got, s7) \<Rightarrow> Some (need, got))"

text \<open>The three cleaning steps of the error message.\<close>

definition cleanErr :: "string \<Rightarrow> string" where
  "cleanErr msg =
     TrimPrefix (ReplaceAll (TrimPrefix msg ''requires at least '') ''only received'' ''received'')
       ''accepts ''"

text \<open>
  \<open>cmd.Args\<close> is \<open>None\<close> when the command has no Args function; otherwise it maps the
  argument list to \<open>None\<close> (accepted) or to the message of the error it returns.

  After the scan the variable \<open>err\<close> holds the scan's error. When the scan succeeded
  and \<open>need < got\<close>, control reaches \<open>cobra.CompDebugln(err.Error(), true)\<close> with
  \<open>err == nil\<close>: calling \<open>Error\<close> on the nil interface value panics before
  \<open>return false\<close> is reached.
\<close>

type_synonym PositionalArgs = "string list \<Rightarrow> string option"

definition validCurrentCmdLine ::
  "PositionalArgs option \<Rightarrow> string list \<Rightarrow> string \<Rightarrow> panic + bool" where
  "validCurrentCmdLine cmdArgs args toComplete =
     (case cmdArgs of
        None \<Rightarrow> Inr True
      | Some validator \<Rightarrow>
          (case validator (args @ [toComplete]) of
             None \<Rightarrow> Inr True
           | Some msg \<Rightarrow>
               (case Sscanf_need_got (cleanErr msg) of
                  Some (need, got) \<Rightarrow> if need \<ge> got then Inr True else Inl NilDereference
                | None \<Rightarrow> Inr False)))"

text \<open>A natural number in decimal digits, as \<open>%d\<close> prints it.\<close>

function decimal :: "nat \<Rightarrow> string" where
  "decimal n = (if n < 10 then [char_of (48 + n)] else decimal (n div 10) @ [char_of (48 + n mod 10)])"
  by pat_completeness auto
termination
  by (relation "measure id") auto

declare decimal.simps [simp del]

text \<open>Modelled from the spec: the Args function \<open>cobra.MinimumNArgs(n)\<close> of the
  command framework, which the comments of \<open>validCurrentCmdLine\<close> name; its code is
  not among the sources. It accepts a line of at least \<open>n\<close> arguments and fails on
  a shorter one with the message "requires at least N arg(s), only received M", the
  phrasing the gate cleans and scans.\<close>

definition MinimumNArgs :: "nat \<Rightarrow> PositionalArgs" where
  "MinimumNArgs n args =
     (if length args < n
      then Some (''requires at least '' @ decimal n @ '' arg(s), only received '' @ decimal (length args))
      else None)"

text \<open>Modelled from the spec: the Args function \<open>cobra.ExactArgs(n)\<close>, not among the
  sources either. It accepts a line of exactly \<open>n\<close> arguments and fails on any other
  with the message "accepts N arg(s), received M".\<close>

definition ExactArgs :: "nat \<Rightarrow> PositionalArgs" where
  "ExactArgs n args =
     (if length args \<noteq> n
      then Some (''accepts '' @ decimal n @ '' arg(s), received '' @ decimal (length args))
      else None)"

subsection \<open>Entity records and the queries of the engine\<close>

text \<open>Modelled from the spec: the entity records, declared in \<open>pkg/domain/entities\<close>
  and not among the sources, with the fields the completion code reads: a container
  has an ID, an ordered list of names and a pod name; a pod an ID and a name; an image
  an ID and an ordered list of repo tags; a volume and a network a name; a connection a
  URI. A query of the engine is a parameter: it returns the message of its error
  (\<open>Inl\<close>) or the records.\<close>

datatype completeType = completeDefault | completeIDs | completeNames

record ListContainer =
  ID :: string
  Names :: "string list"
  PodName :: string

record ContainerListOptions =
  All :: bool
  Pod :: bool
  Filters :: "string \<rightharpoonup> string list"

record ListPodsReport =
  Id :: string
  Name :: string

record PodPSOptions =
  PodFilters :: "string \<rightharpoonup> string list"

record ImageSummary =
  ImageID :: string
  RepoTags :: "string list"

record VolumeListReport =
  VolumeName :: string

record NetworkListReport =
  NetworkName :: string

record Destination =
  URI :: string

definition tab :: string where
  "tab = [CHR 0x09]"

subsection \<open>getContainers, getPods\<close>

text \<open>The condition under which a record's ID is a candidate, the same in
  \<open>getContainers\<close> and \<open>getPods\<close>.\<close>

definition idMatch :: "string \<Rightarrow> completeType \<Rightarrow> string \<Rightarrow> bool" where
  "idMatch toComplete cType ident =
     (((1 < length toComplete \<and> cType = completeDefault) \<or> cType = completeIDs)
      \<and> HasPrefix ident toComplete)"

text \<open>The body of the loop over the containers. \<open>c.ID[0:12]\<close> panics when the ID has
  fewer than 12 bytes, \<open>c.Names[0]\<close> when the container has no name; the second
  condition reads \<open>c.Names[0]\<close> only when \<open>cType != completeIDs\<close>.\<close>

definition getContainers_body ::
  "string \<Rightarrow> completeType \<Rightarrow> ListContainer \<Rightarrow> string list \<Rightarrow> panic + string list" where
  "getContainers_body toComplete cType c suggestions =
     (if idMatch toComplete cType (ID c) \<and> length (ID c) < 12 then Inl SliceBoundsOutOfRange
      else
        let suggestions1 =
              (if idMatch toComplete cType (ID c)
               then suggestions @ [take 12 (ID c) @ tab @ PodName c] else suggestions)
        in if cType \<noteq> completeIDs
           then (case Names c of
                   [] \<Rightarrow> Inl IndexOutOfRange
                 | n # _ \<Rightarrow>
                     Inr (if HasPrefix n toComplete
                          then suggestions1 @ [n @ tab @ PodName c] else suggestions1))
           else Inr suggestions1)"

text \<open>The options \<open>getContainers\<close> builds before the query: all containers, those of
  pods too, and the status filter when statuses are given.\<close>

definition getContainers_listOpts :: "string list \<Rightarrow> ContainerListOptions" where
  "getContainers_listOpts statuses =
     \<lparr>All = True, Pod = True,
      Filters = (if 0 < length statuses then [''status'' \<mapsto> statuses] else Map.empty)\<rparr>"

definition getContainers ::
  "(ContainerListOptions \<Rightarrow> string + ListContainer list) \<Rightarrow>
   string \<Rightarrow> completeType \<Rightarrow> string list \<Rightarrow> panic + completion" where
  "getContainers ContainerList toComplete cType statuses =
     (let listOpts = getContainers_listOpts statuses
      in case ContainerList listOpts of
           Inl err \<Rightarrow> Inr ([], ShellCompDirectiveError)
         | Inr containers \<Rightarrow>
             (case range_loop (getContainers_body toComplete cType) containers [] of
                Inl p \<Rightarrow> Inl p
              | Inr suggestions \<Rightarrow> Inr (suggestions, ShellCompDirectiveNoFileComp)))"

definition getPods_body ::
  "string \<Rightarrow> completeType \<Rightarrow> ListPodsReport \<Rightarrow> string list \<Rightarrow> panic + string list" where
  "getPods_body toComplete cType pod suggestions =
     (if idMatch toComplete cType (Id pod) \<and> length (Id pod) < 12 then Inl SliceBoundsOutOfRange
      else
        let suggestions1 =
              (if idMatch toComplete cType (Id pod)
               then suggestions @ [take 12 (Id pod)] else suggestions)
        in Inr (if cType \<noteq> completeIDs \<and> HasPrefix (Name pod) toComplete
                then suggestions1 @ [Name pod] else suggestions1))"

definition getPods_listOpts :: "string list \<Rightarrow> PodPSOptions" where
  "getPods_listOpts statuses =
     \<lparr>PodFilters = (if 0 < length statuses then [''status'' \<mapsto> statuses] else Map.empty)\<rparr>"

definition getPods ::
  "(PodPSOptions \<Rightarrow> string + ListPodsReport list) \<Rightarrow>
   string \<Rightarrow> completeType \<Rightarrow> string list \<Rightarrow> panic + completion" where
  "getPods PodPs toComplete cType statuses =
     (let listOpts = getPods_listOpts statuses
      in case PodPs listOpts of
           Inl err \<Rightarrow> Inr ([], ShellCompDirectiveError)
         | Inr pods \<Rightarrow>
             (case range_loop (getPods_body toComplete cType) pods [] of
                Inl p \<Rightarrow> Inl p
              | Inr suggestions \<Rightarrow> Inr (suggestions, ShellCompDirectiveNoFileComp)))"

subsection \<open>getVolumes, getNetworks, getRegistries\<close>

definition getVolumes :: "string + VolumeListReport list \<Rightarrow> string \<Rightarrow> completion" where
  "getVolumes VolumeList toComplete =
     (case VolumeList of
        Inl err \<Rightarrow> ([], ShellCompDirectiveError)
      | Inr volumes \<Rightarrow>
          (foldl (\<lambda>suggestions v.
                    if HasPrefix (VolumeName v) toComplete then suggestions @ [VolumeName v]
                    else suggestions) [] volumes,
           ShellCompDirectiveNoFileComp))"

definition getNetworks :: "string + NetworkListReport list \<Rightarrow> string \<Rightarrow> completion" where
  "getNetworks NetworkList toComplete =
     (case NetworkList of
        Inl err \<Rightarrow> ([], ShellCompDirectiveError)
      | Inr networks \<Rightarrow>
          (foldl (\<lambda>suggestions n.
                    if HasPrefix (NetworkName n) toComplete then suggestions @ [NetworkName n]
                    else suggestions) [] networks,
           ShellCompDirectiveNoFileComp))"

text \<open>\<open>getRegistries\<close> has no parameter for the partial token: it returns the list of
  \<open>registries.GetRegistries()\<close> as it is.\<close>

definition getRegistries :: "string + string list \<Rightarrow> completion" where
  "getRegistries GetRegistries =
     (case GetRegistries of
        Inl err \<Rightarrow> ([], ShellCompDirectiveError)
      | Inr regs \<Rightarrow> (regs, ShellCompDirectiveNoFileComp))"

definition AutocompleteRegistries ::
  "string + string list \<Rightarrow> PositionalArgs option \<Rightarrow> string list \<Rightarrow> string \<Rightarrow> panic + completion" where
  "AutocompleteRegistries GetRegistries cmdArgs args toComplete =
     (case validCurrentCmdLine cmdArgs args toComplete of
        Inl p \<Rightarrow> Inl p
      | Inr valid \<Rightarrow>
          if \<not> valid then Inr ([], ShellCompDirectiveNoFileComp)
          else Inr (getRegistries GetRegistries))"

text \<open>\<open>AutocompleteSystemConnections\<close>: the destinations of the configuration are a
  Go map; the list holds its entries in the order the loop enumerates them.\<close>

definition AutocompleteSystemConnections ::
  "string + (string \<times> Destination) list \<Rightarrow> PositionalArgs option \<Rightarrow> string list \<Rightarrow> string \<Rightarrow>
   panic + completion" where
  "AutocompleteSystemConnections ReadCustomConfig cmdArgs args toComplete =
     (case validCurrentCmdLine cmdArgs args toComplete of
        Inl p \<Rightarrow> Inl p
      | Inr valid \<Rightarrow>
          if \<not> valid then Inr ([], ShellCompDirectiveNoFileComp)
          else (case ReadCustomConfig of
                  Inl err \<Rightarrow> Inr ([], ShellCompDirectiveError)
                | Inr destinations \<Rightarrow>
                    Inr (foldl (\<lambda>suggestions (k, v). suggestions @ [k @ tab @ URI v]) [] destinations,
                         ShellCompDirectiveNoFileComp)))"

subsection \<open>getImages\<close>

text \<open>\<open>strings.Split(s, "/")\<close> and \<open>strings.Join(xs, "/")\<close> for a separator of one
  byte, and \<open>strings.SplitN(s, sep, 2)[0]\<close>: the part of \<open>s\<close> before the first
  separator, all of \<open>s\<close> when there is none.\<close>

fun Split :: "string \<Rightarrow> char \<Rightarrow> string list" where
  "Split [] sep = [[]]"
| "Split (c # cs) sep =
     (if c = sep then [] # Split cs sep
      else (case Split cs sep of [] \<Rightarrow> [[c]] | x # xs \<Rightarrow> (c # x) # xs))"

fun Join :: "string list \<Rightarrow> string \<Rightarrow> string" where
  "Join [] sep = []"
| "Join [x] sep = x"
| "Join (x # y # ys) sep = x @ sep @ Join (y # ys) sep"

definition SplitN2_first :: "string \<Rightarrow> char \<Rightarrow> string" where
  "SplitN2_first s sep = takeWhile (\<lambda>c. c \<noteq> sep) s"

text \<open>The body of \<open>for i := range paths\<close>.\<close>

definition getImages_path_body :: "string \<Rightarrow> string list \<Rightarrow> string list \<Rightarrow> nat \<Rightarrow> string list" where
  "getImages_path_body toComplete paths suggestions i =
     (let suggestionWithTag = Join (drop i paths) ''/'';
          suggestions1 = (if HasPrefix suggestionWithTag toComplete
                          then suggestions @ [suggestionWithTag] else suggestions);
          suggestionWithoutTag = SplitN2_first (SplitN2_first suggestionWithTag CHR '':'') CHR ''@''
      in if HasPrefix suggestionWithoutTag toComplete
         then suggestions1 @ [suggestionWithoutTag] else suggestions1)"

text \<open>The body of \<open>for _, repo := range image.RepoTags\<close>.\<close>

definition getImages_repo_body :: "string \<Rightarrow> string list \<Rightarrow> string \<Rightarrow> string list" where
  "getImages_repo_body toComplete suggestions repo =
     (if toComplete = []
      then (if HasPrefix repo toComplete then suggestions @ [repo] else suggestions)
      else let paths = Split repo CHR ''/''
           in foldl (getImages_path_body toComplete paths) suggestions [0..<length paths])"

definition getImages_body :: "string \<Rightarrow> ImageSummary \<Rightarrow> string list \<Rightarrow> panic + string list" where
  "getImages_body toComplete img suggestions =
     (if 1 < length toComplete \<and> HasPrefix (ImageID img) toComplete
      then (if length (ImageID img) < 12 then Inl SliceBoundsOutOfRange
            else Inr (foldl (getImages_repo_body toComplete)
                        (suggestions @ [take 12 (ImageID img)]) (RepoTags img)))
      else Inr (foldl (getImages_repo_body toComplete) suggestions (RepoTags img)))"

definition getImages :: "string + ImageSummary list \<Rightarrow> string \<Rightarrow> panic + completion" where
  "getImages ImageList toComplete =
     (case ImageList of
        Inl err \<Rightarrow> Inr ([], ShellCompDirectiveError)
      | Inr imgs \<Rightarrow>
          (case range_loop (getImages_body toComplete) imgs [] of
             Inl p \<Rightarrow> Inl p
           | Inr suggestions \<Rightarrow> Inr (suggestions, ShellCompDirectiveNoFileComp)))"

subsection \<open>The key-value combinator\<close>

text \<open>
  \<open>keyValueCompletion\<close> is a Go map from keys to functions that may be nil: a key of
  the map has \<open>Some None\<close> (a nil function) or \<open>Some (Some f)\<close>. Go enumerates a map in
  an order it chooses at each loop: the order is the parameter \<open>order\<close> of
  \<open>completeKeyValues\<close>, a list without repetition of the keys of the map.
\<close>

type_synonym completer = "string \<Rightarrow> panic + completion"

type_synonym keyValueCompletion = "string \<rightharpoonup> completer option"

definition prefixSlice :: "string \<Rightarrow> string list \<Rightarrow> string list" where
  "prefixSlice pre sl = map (\<lambda>x. pre @ x) sl"

text \<open>The loop of \<open>completeKeyValues\<close>. In the delegation branch \<open>suggestions, dir :=
  getComps(...)\<close> declares new variables: the keys collected so far are not returned.
  \<open>key[len(key)-1:]\<close> panics for the empty key.\<close>

fun completeKeyValues_loop ::
  "string \<Rightarrow> keyValueCompletion \<Rightarrow> string list \<Rightarrow> string list \<Rightarrow> ShellCompDirective \<Rightarrow>
   panic + completion" where
  "completeKeyValues_loop toComplete k [] suggestions directive = Inr (suggestions, directive)"
| "completeKeyValues_loop toComplete k (key # keys) suggestions directive =
     (case k key of
        None \<Rightarrow> completeKeyValues_loop toComplete k keys suggestions directive
      | Some getComps \<Rightarrow>
          if HasPrefix toComplete key then
            (case getComps of
               Some f \<Rightarrow>
                 (case f (drop (length key) toComplete) of
                    Inl p \<Rightarrow> Inl p
                  | Inr (nested, dir) \<Rightarrow> Inr (prefixSlice key nested, dir))
             | None \<Rightarrow> Inr ([], ShellCompDirectiveNoFileComp))
          else if HasPrefix key toComplete then
            (if key = [] then Inl SliceBoundsOutOfRange
             else let latKey = drop (length key - 1) key
                  in completeKeyValues_loop toComplete k keys (suggestions @ [key])
                       (if latKey = ''='' \<or> latKey = '':''
                        then ShellCompDirectiveNoSpace OR ShellCompDirectiveNoFileComp
                        else directive))
          else completeKeyValues_loop toComplete k keys suggestions directive)"

definition completeKeyValues ::
  "string list \<Rightarrow> string \<Rightarrow> keyValueCompletion \<Rightarrow> panic + completion" where
  "completeKeyValues order toComplete k =
     completeKeyValues_loop toComplete k order [] ShellCompDirectiveNoFileComp"

subsection \<open>AutocompleteNamespace, AutocompleteUserNamespace\<close>

definition namespace_kv ::
  "(ContainerListOptions \<Rightarrow> string + ListContainer list) \<Rightarrow> keyValueCompletion" where
  "namespace_kv ContainerList =
     [''container:'' \<mapsto> Some (\<lambda>s. getContainers ContainerList s completeDefault []),
      ''ns:'' \<mapsto> Some (\<lambda>s. Inr ([], ShellCompDirectiveDefault)),
      ''host'' \<mapsto> None,
      ''private'' \<mapsto> None]"

definition AutocompleteNamespace ::
  "string list \<Rightarrow> (ContainerListOptions \<Rightarrow> string + ListContainer list) \<Rightarrow> string \<Rightarrow>
   panic + completion" where
  "AutocompleteNamespace order ContainerList toComplete =
     completeKeyValues order toComplete (namespace_kv ContainerList)"

definition AutocompleteUserNamespace ::
  "string list \<Rightarrow> (ContainerListOptions \<Rightarrow> string + ListContainer list) \<Rightarrow> string \<Rightarrow>
   panic + completion" where
  "AutocompleteUserNamespace order ContainerList toComplete =
     (case AutocompleteNamespace order ContainerList toComplete of
        Inl p \<Rightarrow> Inl p
      | Inr (results, directive) \<Rightarrow> Inr (results @ [''auto'', ''keep-id''], directive))"

section \<open>Properties\<close>

subsection \<open>Strings\<close>

lemma HasPrefix_prefix: "HasPrefix s pre = prefix pre s"
proof
  assume "HasPrefix s pre"
  then have "s = pre @ drop (length pre) s"
    by (metis HasPrefix_def append_take_drop_id)
  then show "prefix pre s" by (metis prefixI)
next
  assume "prefix pre s"
  then show "HasPrefix s pre" by (auto simp: HasPrefix_def prefix_def)
qed

lemma HasPrefix_Nil [simp]: "HasPrefix s [] = True"
  by (simp add: HasPrefix_def)

lemma HasPrefix_of_Nil [simp]: "HasPrefix [] key = (key = [])"
  by (auto simp: HasPrefix_def)

subsection \<open>The arity gate\<close>

lemma decimal_1: "decimal (Suc 0) = ''1''"
  by code_simp

lemma decimal_2: "decimal 2 = ''2''"
  by code_simp

lemma MinimumNArgs_2_one:
  "MinimumNArgs 2 [t] = Some ''requires at least 2 arg(s), only received 1''"
  by (simp add: MinimumNArgs_def decimal_1 decimal_2)

lemma MinimumNArgs_2_three: "MinimumNArgs 2 [a, b, c] = None"
  by (simp add: MinimumNArgs_def)

lemma scan_min_2_1:
  "Sscanf_need_got (cleanErr ''requires at least 2 arg(s), only received 1'') = Some (2, 1)"
  by code_simp

text \<open>What the gate does, case by case: no Args function; the validator accepts; the
  message is scanned with \<open>need \<ge> got\<close>; the message is scanned with \<open>need < got\<close>;
  the message is not scanned.\<close>

lemma validCurrentCmdLine_cases:
  "validCurrentCmdLine None args toComplete = Inr True"
  "validator (args @ [toComplete]) = None \<Longrightarrow>
     validCurrentCmdLine (Some validator) args toComplete = Inr True"
  "validator (args @ [toComplete]) = Some msg \<Longrightarrow>
     Sscanf_need_got (cleanErr msg) = Some (need, got) \<Longrightarrow> got \<le> need \<Longrightarrow>
     validCurrentCmdLine (Some validator) args toComplete = Inr True"
  "validator (args @ [toComplete]) = Some msg \<Longrightarrow>
     Sscanf_need_got (cleanErr msg) = Some (need, got) \<Longrightarrow> need < got \<Longrightarrow>
     validCurrentCmdLine (Some validator) args toComplete = Inl NilDereference"
  "validator (args @ [toComplete]) = Some msg \<Longrightarrow>
     Sscanf_need_got (cleanErr msg) = None \<Longrightarrow>
     validCurrentCmdLine (Some validator) args toComplete = Inr False"
  by (simp_all add: validCurrentCmdLine_def)

text \<open>
  C1. The claim: the gate returns true when the validator accepts or when the scanned
  pair has \<open>need \<ge> got\<close>, and false in every other case. With \<open>ExactArgs(2)\<close>, two
  arguments on the line and an empty partial token, the validator fails with "accepts 2
  arg(s), received 3", the scan gives need 2 and got 3, and the gate does not return
  false: it panics on \<open>err.Error()\<close> of the nil error before its \<open>return false\<close>.
\<close>

theorem validCurrentCmdLine_ExactArgs_overfull:
  "validCurrentCmdLine (Some (ExactArgs 2)) [''a'', ''b''] '''' = Inl NilDereference"
  by code_simp

text \<open>
  C6, as stated, fails: for a command that requires at least 2 arguments, with 2
  arguments on the line the gate does not return false.
\<close>

theorem validCurrentCmdLine_MinimumNArgs_2_counterexample:
  "validCurrentCmdLine (Some (MinimumNArgs 2)) [''a'', ''b''] ''c'' = Inr True \<and>
   validCurrentCmdLine (Some (MinimumNArgs 2)) [''a'', ''b''] ''c'' \<noteq> Inr False"
  by (simp add: validCurrentCmdLine_def MinimumNArgs_2_three)

text \<open>
  C6, amended. For a command that requires at least 2 arguments (\<open>MinimumNArgs(2)\<close>):
  with no argument on the line and any partial token the gate returns true (need 2,
  got 1); with 2 arguments on the line and any partial token the validator accepts the
  three tokens and the gate returns true as well.
\<close>

theorem validCurrentCmdLine_MinimumNArgs_2:
  "validCurrentCmdLine (Some (MinimumNArgs 2)) [] toComplete = Inr True \<and>
   validCurrentCmdLine (Some (MinimumNArgs 2)) [a, b] toComplete = Inr True"
  by (simp add: validCurrentCmdLine_def MinimumNArgs_2_one MinimumNArgs_2_three scan_min_2_1)

subsection \<open>Registries\<close>

text \<open>
  C7, as stated, fails: with the registries docker.io and quay.io configured and the
  partial token "quay", the suggestion docker.io is returned, and the token is not a
  prefix of it.
\<close>

theorem AutocompleteRegistries_counterexample:
  "AutocompleteRegistries (Inr [''docker.io'', ''quay.io'']) None [] ''quay''
     = Inr ([''docker.io'', ''quay.io''], ShellCompDirectiveNoFileComp)
   \<and> \<not> HasPrefix ''docker.io'' ''quay''"
  by (simp add: AutocompleteRegistries_def getRegistries_def validCurrentCmdLine_def HasPrefix_def)

text \<open>
  C7, amended. The registries adapter does not look at the partial token: it returns
  every configured registry, as it is and in the order of the configuration, with the
  directive NoFileComp; so does \<open>AutocompleteRegistries\<close> whenever the arity gate
  lets the completion through.
\<close>

theorem AutocompleteRegistries_unfiltered:
  "getRegistries (Inr regs) = (regs, ShellCompDirectiveNoFileComp) \<and>
   (validCurrentCmdLine cmdArgs args toComplete = Inr True \<longrightarrow>
      AutocompleteRegistries (Inr regs) cmdArgs args toComplete
        = Inr (regs, ShellCompDirectiveNoFileComp))"
  by (simp add: AutocompleteRegistries_def getRegistries_def)

theorem AutocompleteRegistries_unfiltered_witness:
  "validCurrentCmdLine None [] ''quay'' = Inr True \<and>
   AutocompleteRegistries (Inr [''docker.io'', ''quay.io'']) None [] ''quay''
     = Inr ([''docker.io'', ''quay.io''], ShellCompDirectiveNoFileComp)"
  using AutocompleteRegistries_unfiltered [of "[''docker.io'', ''quay.io'']" None "[]" "''quay''"]
  by (simp add: validCurrentCmdLine_def)

subsection \<open>The key-value combinator\<close>

lemma latKey_last:
  assumes "key \<noteq> []"
  shows "drop (length key - Suc 0) key = [last key]"
proof -
  have "butlast key @ [last key] = key" using assms by simp
  then have "drop (length (butlast key)) key = [last key]"
    by (metis append_eq_conv_conj)
  then show ?thesis by simp
qed

lemma latKey_eq:
  "key \<noteq> [] \<Longrightarrow> (drop (length key - Suc 0) key = [c]) = (last key = c)"
  by (simp add: latKey_last)

lemma completeKeyValues_loop_step_empty:
  "k key = Some getComps \<Longrightarrow> key \<noteq> [] \<Longrightarrow>
   completeKeyValues_loop [] k (key # keys) suggestions directive =
     completeKeyValues_loop [] k keys (suggestions @ [key])
       (if last key = CHR ''='' \<or> last key = CHR '':''
        then ShellCompDirectiveNoSpace OR ShellCompDirectiveNoFileComp else directive)"
  by (simp add: latKey_eq Let_def)

lemma completeKeyValues_loop_empty_token:
  "[] \<notin> set keys \<Longrightarrow> set keys \<subseteq> dom k \<Longrightarrow>
   completeKeyValues_loop [] k keys suggestions directive =
     Inr (suggestions @ keys,
          if \<exists>key\<in>set keys. last key = CHR ''='' \<or> last key = CHR '':''
          then ShellCompDirectiveNoSpace OR ShellCompDirectiveNoFileComp else directive)"
proof (induction keys arbitrary: suggestions directive)
  case Nil
  then show ?case by simp
next
  case (Cons key keys)
  from Cons.prems obtain getComps where g: "k key = Some getComps" by auto
  from Cons.prems have ne: "key \<noteq> []" by auto
  from Cons.prems have rest: "[] \<notin> set keys" "set keys \<subseteq> dom k" by auto
  have "completeKeyValues_loop [] k (key # keys) suggestions directive =
     completeKeyValues_loop [] k keys (suggestions @ [key])
       (if last key = CHR ''='' \<or> last key = CHR '':''
        then ShellCompDirectiveNoSpace OR ShellCompDirectiveNoFileComp else directive)"
    using g ne by (rule completeKeyValues_loop_step_empty)
  also have "\<dots> = Inr ((suggestions @ [key]) @ keys,
          if \<exists>key\<in>set keys. last key = CHR ''='' \<or> last key = CHR '':''
          then ShellCompDirectiveNoSpace OR ShellCompDirectiveNoFileComp
          else (if last key = CHR ''='' \<or> last key = CHR '':''
        then ShellCompDirectiveNoSpace OR ShellCompDirectiveNoFileComp else directive))"
    using rest by (rule Cons.IH)
  finally show ?case by auto
qed

lemma flags_directive:
  "has_flag (ShellCompDirectiveNoSpace OR ShellCompDirectiveNoFileComp) ShellCompDirectiveNoSpace"
  "has_flag (ShellCompDirectiveNoSpace OR ShellCompDirectiveNoFileComp) ShellCompDirectiveNoFileComp"
  "\<not> has_flag (ShellCompDirectiveNoSpace OR ShellCompDirectiveNoFileComp) ShellCompDirectiveError"
  "has_flag ShellCompDirectiveNoFileComp ShellCompDirectiveNoFileComp"
  "\<not> has_flag ShellCompDirectiveNoFileComp ShellCompDirectiveNoSpace"
  "\<not> has_flag ShellCompDirectiveNoFileComp ShellCompDirectiveError"
  by (simp_all add: has_flag_def ShellCompDirectiveNoSpace_def ShellCompDirectiveNoFileComp_def
      ShellCompDirectiveError_def)

text \<open>
  C2. For every key-value grammar whose keys are not empty, and every order in which
  the map is enumerated, \<open>completeKeyValues\<close> with the empty partial token returns
  the declared keys, each once (the suggestions are the keys in the order of the
  enumeration); the directive has NoSpace set if and only if the last character of some
  key is \<open>=\<close> or \<open>:\<close>, and has NoFileComp set, and not Error, in both cases.
\<close>

theorem completeKeyValues_empty_token:
  assumes "distinct order" and "set order = dom k" and "[] \<notin> dom k"
  shows "\<exists>suggestions directive.
           completeKeyValues order [] k = Inr (suggestions, directive) \<and>
           suggestions = order \<and> set suggestions = dom k \<and> distinct suggestions \<and>
           has_flag directive ShellCompDirectiveNoSpace
             = (\<exists>key\<in>dom k. last key = CHR ''='' \<or> last key = CHR '':'') \<and>
           has_flag directive ShellCompDirectiveNoFileComp \<and>
           \<not> has_flag directive ShellCompDirectiveError"
proof -
  have "[] \<notin> set order" "set order \<subseteq> dom k" using assms by auto
  then have "completeKeyValues_loop [] k order [] ShellCompDirectiveNoFileComp =
          Inr ([] @ order, if \<exists>key\<in>set order. last key = CHR ''='' \<or> last key = CHR '':''
                      then ShellCompDirectiveNoSpace OR ShellCompDirectiveNoFileComp
                      else ShellCompDirectiveNoFileComp)"
    by (rule completeKeyValues_loop_empty_token)
  then show ?thesis
    unfolding completeKeyValues_def using assms(1,2)
    by (cases "\<exists>key\<in>dom k. last key = CHR ''='' \<or> last key = CHR '':''")
       (simp_all add: flags_directive)
qed

lemma dom_namespace_kv:
  "dom (namespace_kv ContainerList) = {''container:'', ''ns:'', ''host'', ''private''}"
  by (auto simp: namespace_kv_def)

text \<open>
  C2 at the grammar of \<open>AutocompleteNamespace\<close>, enumerated in the order of its
  declaration.
\<close>

theorem completeKeyValues_empty_token_witness:
  "distinct [''container:'', ''ns:'', ''host'', ''private''] \<and>
   set [''container:'', ''ns:'', ''host'', ''private''] = dom (namespace_kv (\<lambda>opts. Inr [])) \<and>
   [] \<notin> dom (namespace_kv (\<lambda>opts. Inr [])) \<and>
   (\<exists>suggestions directive.
      completeKeyValues [''container:'', ''ns:'', ''host'', ''private''] []
          (namespace_kv (\<lambda>opts. Inr [])) = Inr (suggestions, directive) \<and>
      suggestions = [''container:'', ''ns:'', ''host'', ''private''] \<and>
      has_flag directive ShellCompDirectiveNoSpace)"
proof -
  let ?k = "namespace_kv (\<lambda>opts. Inr [])"
  let ?order = "[''container:'', ''ns:'', ''host'', ''private'']"
  have h1: "distinct ?order" by simp
  have h2: "set ?order = dom ?k" by (auto simp: dom_namespace_kv)
  have h3: "[] \<notin> dom ?k" by (simp add: dom_namespace_kv)
  show ?thesis
    using h1 h2 h3 completeKeyValues_empty_token [OF h1 h2 h3]
    by (auto simp: dom_namespace_kv)
qed

lemma completeKeyValues_loop_delegate:
  "find (HasPrefix toComplete) keys = Some key \<Longrightarrow> k key = Some getComps \<Longrightarrow>
   completeKeyValues_loop toComplete k keys suggestions directive =
     (case getComps of
        Some f \<Rightarrow>
          (case f (drop (length key) toComplete) of
             Inl p \<Rightarrow> Inl p
           | Inr (nested, dir) \<Rightarrow> Inr (prefixSlice key nested, dir))
      | None \<Rightarrow> Inr ([], ShellCompDirectiveNoFileComp))"
proof (induction keys arbitrary: suggestions directive)
  case Nil
  then show ?case by simp
next
  case (Cons a keys)
  show ?case
  proof (cases "HasPrefix toComplete a")
    case True
    with Cons.prems have "a = key" by simp
    with True Cons.prems(2) show ?thesis by simp
  next
    case False
    with Cons.prems have f: "find (HasPrefix toComplete) keys = Some key" by simp
    from False have ne: "a \<noteq> []" by auto
    show ?thesis
      using False ne Cons.IH [OF f Cons.prems(2)]
      by (simp add: Let_def split: option.splits)
  qed
qed

lemma prefixSlice_roundtrip: "map (drop (length pre)) (prefixSlice pre sl) = sl"
  by (induction sl) (simp_all add: prefixSlice_def)

lemma prefixSlice_HasPrefix: "s \<in> set (prefixSlice pre sl) \<Longrightarrow> HasPrefix s pre"
  by (auto simp: prefixSlice_def HasPrefix_def)

text \<open>
  C5. When the delegation branch is taken, that is when the first key of the
  enumeration that the partial token begins with is \<open>key\<close> and \<open>key\<close> has a nested
  completer \<open>f\<close>, \<open>completeKeyValues\<close> returns the suggestions of \<open>f\<close> on the
  token without its leading \<open>key\<close>, each with \<open>key\<close> put in front again, and the
  directive of \<open>f\<close> unchanged (a panic of \<open>f\<close> is passed on); dropping the key
  from each returned suggestion gives back what \<open>f\<close> returned.
\<close>

theorem completeKeyValues_delegation:
  assumes "find (HasPrefix toComplete) order = Some key" and "k key = Some (Some f)"
  shows "completeKeyValues order toComplete k =
           (case f (drop (length key) toComplete) of
              Inl p \<Rightarrow> Inl p
            | Inr (nested, dir) \<Rightarrow> Inr (prefixSlice key nested, dir)) \<and>
         (\<forall>nested dir. f (drop (length key) toComplete) = Inr (nested, dir) \<longrightarrow>
            (\<exists>returned. completeKeyValues order toComplete k = Inr (returned, dir) \<and>
               returned = map (\<lambda>x. key @ x) nested \<and>
               map (drop (length key)) returned = nested \<and>
               (\<forall>s\<in>set returned. HasPrefix s key)))"
proof -
  have eq: "completeKeyValues order toComplete k =
           (case f (drop (length key) toComplete) of
              Inl p \<Rightarrow> Inl p
            | Inr (nested, dir) \<Rightarrow> Inr (prefixSlice key nested, dir))"
    unfolding completeKeyValues_def
    using completeKeyValues_loop_delegate [where k = k and key = key and getComps = "Some f"
        and toComplete = toComplete and keys = order] assms
    by simp
  show ?thesis
  proof (intro conjI allI impI)
    show "completeKeyValues order toComplete k =
           (case f (drop (length key) toComplete) of
              Inl p \<Rightarrow> Inl p
            | Inr (nested, dir) \<Rightarrow> Inr (prefixSlice key nested, dir))" by (rule eq)
  next
    fix nested dir
    assume r: "f (drop (length key) toComplete) = Inr (nested, dir)"
    have "completeKeyValues order toComplete k = Inr (prefixSlice key nested, dir)"
      using eq r by simp
    moreover have "prefixSlice key nested = map (\<lambda>x. key @ x) nested"
      by (simp add: prefixSlice_def)
    moreover have "map (drop (length key)) (prefixSlice key nested) = nested"
      by (rule prefixSlice_roundtrip)
    moreover have "\<forall>s\<in>set (prefixSlice key nested). HasPrefix s key"
      using prefixSlice_HasPrefix by blast
    ultimately show "\<exists>returned. completeKeyValues order toComplete k = Inr (returned, dir) \<and>
               returned = map (\<lambda>x. key @ x) nested \<and>
               map (drop (length key)) returned = nested \<and>
               (\<forall>s\<in>set returned. HasPrefix s key)"
      by metis
  qed
qed

text \<open>
  C5 at the example of the specification: the key \<open>status=\<close> with a completer that
  returns running and paused.
\<close>

theorem completeKeyValues_delegation_witness:
  "find (HasPrefix ''status='') [''status=''] = Some ''status='' \<and>
   completeKeyValues [''status=''] ''status=''
       [''status='' \<mapsto> Some (\<lambda>s. Inr ([''running'', ''paused''], ShellCompDirectiveNoFileComp))]
     = Inr ([''status=running'', ''status=paused''], ShellCompDirectiveNoFileComp)"
proof -
  let ?f = "\<lambda>s::string. Inr ([''running'', ''paused''], ShellCompDirectiveNoFileComp) :: panic + completion"
  let ?k = "[''status='' \<mapsto> Some ?f]"
  have h1: "find (HasPrefix ''status='') [''status=''] = Some ''status=''"
    by (simp add: HasPrefix_def)
  have h2: "?k ''status='' = Some (Some ?f)" by simp
  show ?thesis
    using h1 h2 completeKeyValues_delegation [where k = "?k" and key = "''status=''" and f = "?f"
        and toComplete = "''status=''" and order = "[''status='']"]
    by (simp add: prefixSlice_def)
qed

subsection \<open>Panics of the entity adapters, and the failure of the engine\<close>

lemma range_loop_returns_iff:
  assumes "\<And>x s. (\<exists>s'. body x s = Inr s') = P x"
  shows "(\<exists>r. range_loop body xs s = Inr r) = (\<forall>x\<in>set xs. P x)"
proof (induction xs arbitrary: s)
  case Nil
  show ?case by simp
next
  case (Cons x xs)
  show ?case
  proof (cases "body x s")
    case (Inl e)
    with assms [of x s] show ?thesis by simp
  next
    case (Inr s')
    with assms [of x s] Cons.IH [of s'] show ?thesis by simp
  qed
qed

lemma range_loop_panic:
  assumes "\<And>x s e. body x s = Inl e \<Longrightarrow> e = E"
  shows "range_loop body xs s = Inl e \<Longrightarrow> e = E"
proof (induction xs arbitrary: s)
  case Nil
  then show ?case by simp
next
  case (Cons x xs)
  then show ?case using assms by (auto split: sum.splits)
qed

lemma getPods_body_returns:
  "(\<exists>s'. getPods_body t ty p s = Inr s') = (idMatch t ty (Id p) \<longrightarrow> 12 \<le> length (Id p))"
  by (auto simp: getPods_body_def Let_def)

lemma getPods_body_panic: "getPods_body t ty p s = Inl e \<Longrightarrow> e = SliceBoundsOutOfRange"
  by (auto simp: getPods_body_def Let_def split: if_splits)

lemma getImages_body_returns:
  "(\<exists>s'. getImages_body t im s = Inr s') =
     (1 < length t \<and> HasPrefix (ImageID im) t \<longrightarrow> 12 \<le> length (ImageID im))"
  by (auto simp: getImages_body_def)

lemma getImages_body_panic: "getImages_body t im s = Inl e \<Longrightarrow> e = SliceBoundsOutOfRange"
  by (auto simp: getImages_body_def split: if_splits)

lemma getContainers_body_returns:
  "(\<exists>s'. getContainers_body t ty c s = Inr s') =
     ((idMatch t ty (ID c) \<longrightarrow> 12 \<le> length (ID c)) \<and> (ty \<noteq> completeIDs \<longrightarrow> Names c \<noteq> []))"
  by (auto simp: getContainers_body_def Let_def split: list.splits)

lemma sum_cases_returns: "(\<exists>r. x = Inr r) \<or> (\<exists>e. x = Inl e)"
  by (cases x) auto

text \<open>
  C9. The three functions take \<open>ID[0:12]\<close> of every record whose ID is matched, that
  is for which the ID branch is taken (\<open>idMatch\<close>: the mode and length condition and
  the partial token a prefix of the ID; for images: more than one character typed and
  the token a prefix of the ID). They return a pair of suggestions and directive only
  if every matched ID has at least 12 bytes; with a matched ID of fewer than 12 bytes
  they panic instead. For pods and images this is the only panic; \<open>getContainers\<close>
  returns exactly when, moreover, every container has a name unless only IDs are
  completed.
\<close>

theorem short_id_panics:
  assumes "ContainerList (getContainers_listOpts statuses) = Inr containers"
      and "PodPs (getPods_listOpts statuses) = Inr pods"
  shows "((\<exists>r. getContainers ContainerList toComplete cType statuses = Inr r) =
            ((\<forall>c\<in>set containers. idMatch toComplete cType (ID c) \<longrightarrow> 12 \<le> length (ID c)) \<and>
             (cType \<noteq> completeIDs \<longrightarrow> (\<forall>c\<in>set containers. Names c \<noteq> [])))) \<and>
         ((\<exists>c\<in>set containers. idMatch toComplete cType (ID c) \<and> length (ID c) < 12) \<longrightarrow>
            (\<exists>e. getContainers ContainerList toComplete cType statuses = Inl e)) \<and>
         ((getPods PodPs toComplete cType statuses = Inl SliceBoundsOutOfRange) =
            (\<exists>p\<in>set pods. idMatch toComplete cType (Id p) \<and> length (Id p) < 12)) \<and>
         ((\<exists>r. getPods PodPs toComplete cType statuses = Inr r) =
            (\<forall>p\<in>set pods. idMatch toComplete cType (Id p) \<longrightarrow> 12 \<le> length (Id p))) \<and>
         ((getImages (Inr imgs) toComplete = Inl SliceBoundsOutOfRange) =
            (\<exists>im\<in>set imgs. 1 < length toComplete \<and> HasPrefix (ImageID im) toComplete \<and>
                             length (ImageID im) < 12)) \<and>
         ((\<exists>r. getImages (Inr imgs) toComplete = Inr r) =
            (\<forall>im\<in>set imgs. 1 < length toComplete \<and> HasPrefix (ImageID im) toComplete \<longrightarrow>
                             12 \<le> length (ImageID im)))"
proof -
  have c1: "(\<exists>r. getContainers ContainerList toComplete cType statuses = Inr r) =
            (\<exists>r. range_loop (getContainers_body toComplete cType) containers [] = Inr r)"
    using assms(1) by (auto simp: getContainers_def split: sum.splits)
  have c2: "(\<exists>r. range_loop (getContainers_body toComplete cType) containers [] = Inr r) =
            (\<forall>c\<in>set containers. (idMatch toComplete cType (ID c) \<longrightarrow> 12 \<le> length (ID c)) \<and>
                                  (cType \<noteq> completeIDs \<longrightarrow> Names c \<noteq> []))"
    by (rule range_loop_returns_iff) (rule getContainers_body_returns)
  have C: "(\<exists>r. getContainers ContainerList toComplete cType statuses = Inr r) =
            ((\<forall>c\<in>set containers. idMatch toComplete cType (ID c) \<longrightarrow> 12 \<le> length (ID c)) \<and>
             (cType \<noteq> completeIDs \<longrightarrow> (\<forall>c\<in>set containers. Names c \<noteq> [])))"
    unfolding c1 c2 by blast
  have C': "(\<exists>c\<in>set containers. idMatch toComplete cType (ID c) \<and> length (ID c) < 12) \<longrightarrow>
            (\<exists>e. getContainers ContainerList toComplete cType statuses = Inl e)"
  proof
    assume "\<exists>c\<in>set containers. idMatch toComplete cType (ID c) \<and> length (ID c) < 12"
    then have "\<not> (\<exists>r. getContainers ContainerList toComplete cType statuses = Inr r)"
      unfolding C by (auto simp: not_le)
    then show "\<exists>e. getContainers ContainerList toComplete cType statuses = Inl e"
      using sum_cases_returns by blast
  qed
  have p1: "(\<exists>r. getPods PodPs toComplete cType statuses = Inr r) =
            (\<exists>r. range_loop (getPods_body toComplete cType) pods [] = Inr r)"
    using assms(2) by (auto simp: getPods_def split: sum.splits)
  have p2: "(\<exists>r. range_loop (getPods_body toComplete cType) pods [] = Inr r) =
            (\<forall>p\<in>set pods. idMatch toComplete cType (Id p) \<longrightarrow> 12 \<le> length (Id p))"
    by (rule range_loop_returns_iff) (rule getPods_body_returns)
  have P: "(\<exists>r. getPods PodPs toComplete cType statuses = Inr r) =
            (\<forall>p\<in>set pods. idMatch toComplete cType (Id p) \<longrightarrow> 12 \<le> length (Id p))"
    unfolding p1 p2 ..
  have p3: "getPods PodPs toComplete cType statuses = Inl e \<Longrightarrow> e = SliceBoundsOutOfRange" for e
    using assms(2) range_loop_panic [of "getPods_body toComplete cType" SliceBoundsOutOfRange pods "[]" e]
      getPods_body_panic
    by (auto simp: getPods_def split: sum.splits)
  have P': "(getPods PodPs toComplete cType statuses = Inl SliceBoundsOutOfRange) =
            (\<exists>p\<in>set pods. idMatch toComplete cType (Id p) \<and> length (Id p) < 12)"
  proof
    assume "getPods PodPs toComplete cType statuses = Inl SliceBoundsOutOfRange"
    then have "\<not> (\<exists>r. getPods PodPs toComplete cType statuses = Inr r)" by simp
    then show "\<exists>p\<in>set pods. idMatch toComplete cType (Id p) \<and> length (Id p) < 12"
      unfolding P by (auto simp: not_le)
  next
    assume "\<exists>p\<in>set pods. idMatch toComplete cType (Id p) \<and> length (Id p) < 12"
    then have "\<not> (\<exists>r. getPods PodPs toComplete cType statuses = Inr r)"
      unfolding P by (auto simp: not_le)
    then obtain e where "getPods PodPs toComplete cType statuses = Inl e"
      using sum_cases_returns by blast
    with p3 show "getPods PodPs toComplete cType statuses = Inl SliceBoundsOutOfRange" by blast
  qed
  have i1: "(\<exists>r. getImages (Inr imgs) toComplete = Inr r) =
            (\<exists>r. range_loop (getImages_body toComplete) imgs [] = Inr r)"
    by (auto simp: getImages_def split: sum.splits)
  have i2: "(\<exists>r. range_loop (getImages_body toComplete) imgs [] = Inr r) =
            (\<forall>im\<in>set imgs. 1 < length toComplete \<and> HasPrefix (ImageID im) toComplete \<longrightarrow>
                             12 \<le> length (ImageID im))"
    by (rule range_loop_returns_iff) (rule getImages_body_returns)
  have I: "(\<exists>r. getImages (Inr imgs) toComplete = Inr r) =
            (\<forall>im\<in>set imgs. 1 < length toComplete \<and> HasPrefix (ImageID im) toComplete \<longrightarrow>
                             12 \<le> length (ImageID im))"
    unfolding i1 i2 ..
  have i3: "getImages (Inr imgs) toComplete = Inl e \<Longrightarrow> e = SliceBoundsOutOfRange" for e
    using range_loop_panic [of "getImages_body toComplete" SliceBoundsOutOfRange imgs "[]" e]
      getImages_body_panic
    by (auto simp: getImages_def split: sum.splits)
  have I': "(getImages (Inr imgs) toComplete = Inl SliceBoundsOutOfRange) =
            (\<exists>im\<in>set imgs. 1 < length toComplete \<and> HasPrefix (ImageID im) toComplete \<and>
                             length (ImageID im) < 12)"
  proof
    assume "getImages (Inr imgs) toComplete = Inl SliceBoundsOutOfRange"
    then have "\<not> (\<exists>r. getImages (Inr imgs) toComplete = Inr r)" by simp
    then show "\<exists>im\<in>set imgs. 1 < length toComplete \<and> HasPrefix (ImageID im) toComplete \<and>
                             length (ImageID im) < 12"
      unfolding I by (auto simp: not_le)
  next
    assume "\<exists>im\<in>set imgs. 1 < length toComplete \<and> HasPrefix (ImageID im) toComplete \<and>
                             length (ImageID im) < 12"
    then have "\<not> (\<exists>r. getImages (Inr imgs) toComplete = Inr r)"
      unfolding I by (auto simp: not_le)
    then obtain e where "getImages (Inr imgs) toComplete = Inl e"
      using sum_cases_returns by blast
    with i3 show "getImages (Inr imgs) toComplete = Inl SliceBoundsOutOfRange" by blast
  qed
  from C C' P' P I' I show ?thesis by blast
qed

text \<open>
  C9 at records with the ID \<open>abc\<close> and the partial token \<open>ab\<close>.
\<close>

theorem short_id_panics_witness:
  "(\<lambda>opts. Inr [\<lparr>ID = ''abc'', Names = [''web''], PodName = ''p''\<rparr>]) (getContainers_listOpts [])
      = (Inr [\<lparr>ID = ''abc'', Names = [''web''], PodName = ''p''\<rparr>] :: string + ListContainer list) \<and>
   (\<lambda>opts. Inr [\<lparr>Id = ''abc'', Name = ''db''\<rparr>]) (getPods_listOpts [])
      = (Inr [\<lparr>Id = ''abc'', Name = ''db''\<rparr>] :: string + ListPodsReport list) \<and>
   (\<exists>e. getContainers (\<lambda>opts. Inr [\<lparr>ID = ''abc'', Names = [''web''], PodName = ''p''\<rparr>])
          ''ab'' completeDefault [] = Inl e) \<and>
   getPods (\<lambda>opts. Inr [\<lparr>Id = ''abc'', Name = ''db''\<rparr>]) ''ab'' completeDefault []
      = Inl SliceBoundsOutOfRange \<and>
   getImages (Inr [\<lparr>ImageID = ''abc'', RepoTags = []\<rparr>]) ''ab'' = Inl SliceBoundsOutOfRange"
proof -
  let ?CL = "\<lambda>opts::ContainerListOptions.
               Inr [\<lparr>ID = ''abc'', Names = [''web''], PodName = ''p''\<rparr>] :: string + ListContainer list"
  let ?PP = "\<lambda>opts::PodPSOptions. Inr [\<lparr>Id = ''abc'', Name = ''db''\<rparr>] :: string + ListPodsReport list"
  have h1: "?CL (getContainers_listOpts []) = Inr [\<lparr>ID = ''abc'', Names = [''web''], PodName = ''p''\<rparr>]"
    by simp
  have h2: "?PP (getPods_listOpts []) = Inr [\<lparr>Id = ''abc'', Name = ''db''\<rparr>]"
    by simp
  have m: "idMatch ''ab'' completeDefault ''abc''" "HasPrefix ''abc'' ''ab''"
    by (simp_all add: idMatch_def HasPrefix_def)
  show ?thesis
    using short_id_panics [OF h1 h2, where toComplete = "''ab''" and cType = completeDefault
        and imgs = "[\<lparr>ImageID = ''abc'', RepoTags = []\<rparr>]"] m
    by simp
qed

lemma directive_Error_flags:
  "has_flag ShellCompDirectiveError ShellCompDirectiveError"
  "\<not> has_flag ShellCompDirectiveError ShellCompDirectiveNoSpace"
  "\<not> has_flag ShellCompDirectiveError ShellCompDirectiveNoFileComp"
  by (simp_all add: has_flag_def ShellCompDirectiveNoSpace_def ShellCompDirectiveNoFileComp_def
      ShellCompDirectiveError_def)

text \<open>
  C8. When the query of the engine returns an error, every adapter (containers, pods,
  volumes, images, registries, networks, and the connections read by
  \<open>AutocompleteSystemConnections\<close> once the arity gate has passed) returns no suggestion
  and the directive Error, which has no other flag set; the query is the one call
  whose result is given. When the query succeeds, the directive of a returned
  completion is NoFileComp.
\<close>

theorem backend_failure:
  assumes "ContainerList (getContainers_listOpts statuses) = Inl err"
      and "PodPs (getPods_listOpts statuses) = Inl err"
      and "validCurrentCmdLine cmdArgs args toComplete = Inr True"
      and "ContainerList' (getContainers_listOpts statuses) = Inr containers"
      and "PodPs' (getPods_listOpts statuses) = Inr pods"
  shows "getContainers ContainerList toComplete cType statuses = Inr ([], ShellCompDirectiveError) \<and>
         getPods PodPs toComplete cType statuses = Inr ([], ShellCompDirectiveError) \<and>
         getVolumes (Inl err) toComplete = ([], ShellCompDirectiveError) \<and>
         getImages (Inl err) toComplete = Inr ([], ShellCompDirectiveError) \<and>
         getRegistries (Inl err) = ([], ShellCompDirectiveError) \<and>
         getNetworks (Inl err) toComplete = ([], ShellCompDirectiveError) \<and>
         AutocompleteSystemConnections (Inl err) cmdArgs args toComplete
           = Inr ([], ShellCompDirectiveError) \<and>
         \<not> has_flag ShellCompDirectiveError ShellCompDirectiveNoSpace \<and>
         \<not> has_flag ShellCompDirectiveError ShellCompDirectiveNoFileComp \<and>
         (\<forall>suggestions directive.
            getContainers ContainerList' toComplete cType statuses = Inr (suggestions, directive)
            \<longrightarrow> directive = ShellCompDirectiveNoFileComp) \<and>
         (\<forall>suggestions directive.
            getPods PodPs' toComplete cType statuses = Inr (suggestions, directive)
            \<longrightarrow> directive = ShellCompDirectiveNoFileComp) \<and>
         (\<forall>suggestions directive.
            getImages (Inr imgs) toComplete = Inr (suggestions, directive)
            \<longrightarrow> directive = ShellCompDirectiveNoFileComp) \<and>
         snd (getVolumes (Inr volumes) toComplete) = ShellCompDirectiveNoFileComp \<and>
         snd (getRegistries (Inr regs)) = ShellCompDirectiveNoFileComp \<and>
         snd (getNetworks (Inr networks) toComplete) = ShellCompDirectiveNoFileComp \<and>
         (\<exists>suggestions. AutocompleteSystemConnections (Inr destinations) cmdArgs args toComplete
            = Inr (suggestions, ShellCompDirectiveNoFileComp))"
proof -
  have e1: "getContainers ContainerList toComplete cType statuses = Inr ([], ShellCompDirectiveError)"
    using assms(1) by (simp add: getContainers_def)
  have e2: "getPods PodPs toComplete cType statuses = Inr ([], ShellCompDirectiveError)"
    using assms(2) by (simp add: getPods_def)
  have e3: "getVolumes (Inl err) toComplete = ([], ShellCompDirectiveError)"
    by (simp add: getVolumes_def)
  have e4: "getImages (Inl err) toComplete = Inr ([], ShellCompDirectiveError)"
    by (simp add: getImages_def)
  have e5: "getRegistries (Inl err) = ([], ShellCompDirectiveError)"
    by (simp add: getRegistries_def)
  have e6: "getNetworks (Inl err) toComplete = ([], ShellCompDirectiveError)"
    by (simp add: getNetworks_def)
  have e7: "AutocompleteSystemConnections (Inl err) cmdArgs args toComplete
           = Inr ([], ShellCompDirectiveError)"
    using assms(3) by (simp add: AutocompleteSystemConnections_def)
  have s1: "\<forall>suggestions directive.
            getContainers ContainerList' toComplete cType statuses = Inr (suggestions, directive)
            \<longrightarrow> directive = ShellCompDirectiveNoFileComp"
    using assms(4) by (auto simp: getContainers_def split: sum.splits)
  have s2: "\<forall>suggestions directive.
            getPods PodPs' toComplete cType statuses = Inr (suggestions, directive)
            \<longrightarrow> directive = ShellCompDirectiveNoFileComp"
    using assms(5) by (auto simp: getPods_def split: sum.splits)
  have s3: "\<forall>suggestions directive.
            getImages (Inr imgs) toComplete = Inr (suggestions, directive)
            \<longrightarrow> directive = ShellCompDirectiveNoFileComp"
    by (auto simp: getImages_def split: sum.splits)
  have s4: "snd (getVolumes (Inr volumes) toComplete) = ShellCompDirectiveNoFileComp"
    by (simp add: getVolumes_def)
  have s5: "snd (getRegistries (Inr regs)) = ShellCompDirectiveNoFileComp"
    by (simp add: getRegistries_def)
  have s6: "snd (getNetworks (Inr networks) toComplete) = ShellCompDirectiveNoFileComp"
    by (simp add: getNetworks_def)
  have s7: "\<exists>suggestions. AutocompleteSystemConnections (Inr destinations) cmdArgs args toComplete
            = Inr (suggestions, ShellCompDirectiveNoFileComp)"
    using assms(3) by (simp add: AutocompleteSystemConnections_def)
  from e1 e2 e3 e4 e5 e6 e7 directive_Error_flags(2,3) s1 s2 s3 s4 s5 s6 s7
  show ?thesis by blast
qed

text \<open>
  C8 at an engine whose queries fail with the message \<open>down\<close>.
\<close>

theorem backend_failure_witness:
  "(\<lambda>opts. Inl ''down'') (getContainers_listOpts [''running''])
      = (Inl ''down'' :: string + ListContainer list) \<and>
   (\<lambda>opts. Inl ''down'') (getPods_listOpts [''running''])
      = (Inl ''down'' :: string + ListPodsReport list) \<and>
   validCurrentCmdLine None [] ''a'' = Inr True \<and>
   getContainers (\<lambda>opts. Inl ''down'') ''a'' completeDefault [''running'']
      = Inr ([], ShellCompDirectiveError) \<and>
   getPods (\<lambda>opts. Inl ''down'') ''a'' completeDefault [''running'']
      = Inr ([], ShellCompDirectiveError) \<and>
   getImages (Inl ''down'') ''a'' = Inr ([], ShellCompDirectiveError) \<and>
   AutocompleteSystemConnections (Inl ''down'') None [] ''a'' = Inr ([], ShellCompDirectiveError)"
proof -
  let ?CL = "\<lambda>opts::ContainerListOptions. Inl ''down'' :: string + ListContainer list"
  let ?PP = "\<lambda>opts::PodPSOptions. Inl ''down'' :: string + ListPodsReport list"
  let ?CL' = "\<lambda>opts::ContainerListOptions. Inr [] :: string + ListContainer list"
  let ?PP' = "\<lambda>opts::PodPSOptions. Inr [] :: string + ListPodsReport list"
  have h1: "?CL (getContainers_listOpts [''running'']) = Inl ''down''" by simp
  have h2: "?PP (getPods_listOpts [''running'']) = Inl ''down''" by simp
  have h3: "validCurrentCmdLine None [] ''a'' = Inr True" by (simp add: validCurrentCmdLine_def)
  have h4: "?CL' (getContainers_listOpts [''running'']) = Inr []" by simp
  have h5: "?PP' (getPods_listOpts [''running'']) = Inr []" by simp
  show ?thesis
    using h3 backend_failure [where ContainerList = "?CL" and PodPs = "?PP" and ContainerList' = "?CL'"
        and PodPs' = "?PP'" and statuses = "[''running'']" and err = "''down''" and cmdArgs = None
        and args = "[]" and toComplete = "''a''" and containers = "[]" and pods = "[]"
        and cType = completeDefault, OF h1 h2 h3 h4 h5]
    by simp
qed

subsection \<open>Name and tag completion\<close>

lemma foldl_append_acc:
  assumes "\<And>s x. f s x = s @ f [] x"
  shows "foldl f s xs = s @ concat (map (f []) xs)"
proof (induction xs arbitrary: s)
  case Nil
  show ?case by simp
next
  case (Cons x xs)
  have "foldl f s (x # xs) = foldl f (f s x) xs" by simp
  also have "\<dots> = f s x @ concat (map (f []) xs)" by (rule Cons.IH)
  also have "f s x = s @ f [] x" by (rule assms)
  finally show ?case by simp
qed

lemma range_loop_append_acc:
  assumes "\<And>x s. body x s = Inr (s @ g x)"
  shows "range_loop body xs s = Inr (s @ concat (map g xs))"
proof (induction xs arbitrary: s)
  case Nil
  show ?case by simp
next
  case (Cons x xs)
  have step: "body x s = Inr (s @ g x)" by (rule assms)
  have "range_loop body (x # xs) s = range_loop body xs (s @ g x)"
    unfolding range_loop.simps step by simp
  also have "\<dots> = Inr ((s @ g x) @ concat (map g xs))" by (rule Cons.IH)
  finally show ?case by simp
qed

lemma concat_map_if:
  "concat (map (\<lambda>x. if P x then [f x] else []) xs) = map f (filter P xs)"
  by (induction xs) simp_all

lemma getImages_path_body_append:
  "getImages_path_body t paths s i = s @ getImages_path_body t paths [] i"
  by (simp add: getImages_path_body_def Let_def)

lemma getImages_path_body_prefix:
  "x \<in> set (getImages_path_body t paths [] i) \<Longrightarrow> HasPrefix x t"
  by (auto simp: getImages_path_body_def Let_def split: if_splits)

lemma getImages_repo_body_paths:
  "t \<noteq> [] \<Longrightarrow> getImages_repo_body t s repo =
     s @ concat (map (getImages_path_body t (Split repo CHR ''/'') [])
                  [0..<length (Split repo CHR ''/'')])"
  unfolding getImages_repo_body_def Let_def
  using foldl_append_acc [of "getImages_path_body t (Split repo CHR ''/'')" s,
      OF getImages_path_body_append]
  by simp

lemma getImages_repo_body_append:
  "getImages_repo_body t s repo = s @ getImages_repo_body t [] repo"
proof (cases "t = []")
  case True
  then show ?thesis by (simp add: getImages_repo_body_def)
next
  case False
  show ?thesis
    using getImages_repo_body_paths [OF False, of s repo]
      getImages_repo_body_paths [OF False, of "[]" repo]
    by simp
qed

lemma getImages_repo_body_prefix:
  "x \<in> set (getImages_repo_body t [] repo) \<Longrightarrow> HasPrefix x t"
proof (cases "t = []")
  case True
  then show ?thesis by simp
next
  case False
  assume "x \<in> set (getImages_repo_body t [] repo)"
  then show ?thesis
    unfolding getImages_repo_body_paths [OF False]
    using getImages_path_body_prefix by auto
qed

lemma getImages_body_no_id:
  "length t \<le> 1 \<Longrightarrow>
   getImages_body t im s = Inr (s @ concat (map (getImages_repo_body t []) (RepoTags im)))"
  unfolding getImages_body_def
  using foldl_append_acc [of "getImages_repo_body t" s "RepoTags im", OF getImages_repo_body_append]
  by simp

lemma idMatch_short: "length t \<le> 1 \<Longrightarrow> \<not> idMatch t completeDefault ident"
  by (simp add: idMatch_def)

lemma getPods_body_no_id:
  "length t \<le> 1 \<Longrightarrow>
   getPods_body t completeDefault p s = Inr (s @ (if HasPrefix (Name p) t then [Name p] else []))"
  by (simp add: getPods_body_def idMatch_short)

lemma getContainers_loop_no_id:
  "length t \<le> 1 \<Longrightarrow>
   range_loop (getContainers_body t completeDefault) cs s =
     (if \<exists>c\<in>set cs. Names c = [] then Inl IndexOutOfRange
      else Inr (s @ map (\<lambda>c. hd (Names c) @ tab @ PodName c)
                      (filter (\<lambda>c. HasPrefix (hd (Names c)) t) cs)))"
proof (induction cs arbitrary: s)
  case Nil
  show ?case by simp
next
  case (Cons c cs)
  show ?case
  proof (cases "Names c")
    case Nil
    then show ?thesis
      using Cons.prems by (simp add: getContainers_body_def idMatch_short)
  next
    case (Cons n ns)
    then show ?thesis
      using Cons.prems Cons.IH [OF Cons.prems]
      by (simp add: getContainers_body_def idMatch_short)
  qed
qed

text \<open>
  C4. For a partial token of at most one character and the mode Default, no ID is a
  candidate (\<open>idMatch\<close> is false for every ID), and what the three functions return
  is made of name matches only: \<open>getContainers\<close> returns, in order, the first name
  (with the pod name after a tab) of the containers whose first name begins with the
  token, and panics only on a container without a name; \<open>getPods\<close> returns the names
  of the pods whose name begins with the token; \<open>getImages\<close> returns the suggestions
  made from the repo tags, each of which begins with the token.
\<close>

theorem no_id_suggestion_for_short_token:
  assumes "length toComplete \<le> 1"
      and "ContainerList (getContainers_listOpts statuses) = Inr containers"
      and "PodPs (getPods_listOpts statuses) = Inr pods"
  shows "getContainers ContainerList toComplete completeDefault statuses =
           (if \<exists>c\<in>set containers. Names c = [] then Inl IndexOutOfRange
            else Inr (map (\<lambda>c. hd (Names c) @ tab @ PodName c)
                        (filter (\<lambda>c. HasPrefix (hd (Names c)) toComplete) containers),
                      ShellCompDirectiveNoFileComp)) \<and>
         getPods PodPs toComplete completeDefault statuses =
           Inr (map Name (filter (\<lambda>p. HasPrefix (Name p) toComplete) pods),
                ShellCompDirectiveNoFileComp) \<and>
         getImages (Inr imgs) toComplete =
           Inr (concat (map (\<lambda>im. concat (map (getImages_repo_body toComplete []) (RepoTags im))) imgs),
                ShellCompDirectiveNoFileComp) \<and>
         (\<forall>im\<in>set imgs. \<forall>repo\<in>set (RepoTags im).
            \<forall>s\<in>set (getImages_repo_body toComplete [] repo). HasPrefix s toComplete) \<and>
         (\<forall>ident. \<not> idMatch toComplete completeDefault ident)"
proof -
  have c: "getContainers ContainerList toComplete completeDefault statuses =
           (if \<exists>c\<in>set containers. Names c = [] then Inl IndexOutOfRange
            else Inr (map (\<lambda>c. hd (Names c) @ tab @ PodName c)
                        (filter (\<lambda>c. HasPrefix (hd (Names c)) toComplete) containers),
                      ShellCompDirectiveNoFileComp))"
    using assms(2) getContainers_loop_no_id [OF assms(1), of containers "[]"]
    by (simp add: getContainers_def)
  have "range_loop (getPods_body toComplete completeDefault) pods [] =
          Inr ([] @ concat (map (\<lambda>p. if HasPrefix (Name p) toComplete then [Name p] else []) pods))"
    by (rule range_loop_append_acc) (rule getPods_body_no_id [OF assms(1)])
  then have p: "getPods PodPs toComplete completeDefault statuses =
           Inr (map Name (filter (\<lambda>p. HasPrefix (Name p) toComplete) pods),
                ShellCompDirectiveNoFileComp)"
    using assms(3) by (simp add: getPods_def concat_map_if)
  have "range_loop (getImages_body toComplete) imgs [] =
          Inr ([] @ concat (map (\<lambda>im. concat (map (getImages_repo_body toComplete []) (RepoTags im))) imgs))"
    by (rule range_loop_append_acc) (rule getImages_body_no_id [OF assms(1)])
  then have i: "getImages (Inr imgs) toComplete =
           Inr (concat (map (\<lambda>im. concat (map (getImages_repo_body toComplete []) (RepoTags im))) imgs),
                ShellCompDirectiveNoFileComp)"
    by (simp add: getImages_def)
  from c p i getImages_repo_body_prefix idMatch_short [OF assms(1)]
  show ?thesis by blast
qed

text \<open>
  C4 at the partial token \<open>a\<close>, with one container, one pod and one image whose IDs
  begin with \<open>a\<close> as well.
\<close>

theorem no_id_suggestion_for_short_token_witness:
  "length ''a'' \<le> 1 \<and>
   (\<lambda>opts. Inr [\<lparr>ID = ''abcdef0123456789'', Names = [''alpha''], PodName = ''p''\<rparr>])
       (getContainers_listOpts [])
     = (Inr [\<lparr>ID = ''abcdef0123456789'', Names = [''alpha''], PodName = ''p''\<rparr>]
          :: string + ListContainer list) \<and>
   (\<lambda>opts. Inr [\<lparr>Id = ''abcdef0123456789'', Name = ''apod''\<rparr>]) (getPods_listOpts [])
     = (Inr [\<lparr>Id = ''abcdef0123456789'', Name = ''apod''\<rparr>] :: string + ListPodsReport list) \<and>
   getContainers (\<lambda>opts. Inr [\<lparr>ID = ''abcdef0123456789'', Names = [''alpha''], PodName = ''p''\<rparr>])
       ''a'' completeDefault []
     = Inr ([''alpha'' @ tab @ ''p''], ShellCompDirectiveNoFileComp) \<and>
   getPods (\<lambda>opts. Inr [\<lparr>Id = ''abcdef0123456789'', Name = ''apod''\<rparr>]) ''a'' completeDefault []
     = Inr ([''apod''], ShellCompDirectiveNoFileComp) \<and>
   getImages (Inr [\<lparr>ImageID = ''abcdef0123456789'', RepoTags = [''app:latest'']\<rparr>]) ''a''
     = Inr ([''app:latest'', ''app''], ShellCompDirectiveNoFileComp)"
proof -
  let ?cs = "[\<lparr>ID = ''abcdef0123456789'', Names = [''alpha''], PodName = ''p''\<rparr>]"
  let ?ps = "[\<lparr>Id = ''abcdef0123456789'', Name = ''apod''\<rparr>]"
  let ?is = "[\<lparr>ImageID = ''abcdef0123456789'', RepoTags = [''app:latest'']\<rparr>]"
  let ?CL = "\<lambda>opts::ContainerListOptions. Inr ?cs :: string + ListContainer list"
  let ?PP = "\<lambda>opts::PodPSOptions. Inr ?ps :: string + ListPodsReport list"
  have h1: "length ''a'' \<le> 1" by simp
  have h2: "?CL (getContainers_listOpts []) = Inr ?cs" by simp
  have h3: "?PP (getPods_listOpts []) = Inr ?ps" by simp
  have r: "getImages_repo_body ''a'' [] ''app:latest'' = [''app:latest'', ''app'']"
    by code_simp
  have p: "HasPrefix ''alpha'' ''a''" "HasPrefix ''apod'' ''a''"
    by (simp_all add: HasPrefix_def)
  note t = no_id_suggestion_for_short_token [where ContainerList = "?CL" and PodPs = "?PP"
        and statuses = "[]" and toComplete = "''a''" and containers = "?cs" and pods = "?ps"
        and imgs = "?is", OF h1 h2 h3]
  have c: "getContainers ?CL ''a'' completeDefault []
     = Inr ([''alpha'' @ tab @ ''p''], ShellCompDirectiveNoFileComp)"
    using t p(1) by simp
  have q: "getPods ?PP ''a'' completeDefault [] = Inr ([''apod''], ShellCompDirectiveNoFileComp)"
    using t p(2) by simp
  have i: "getImages (Inr ?is) ''a'' = Inr ([''app:latest'', ''app''], ShellCompDirectiveNoFileComp)"
    using t r by simp
  from h1 h2 h3 c q i show ?thesis by blast
qed

text \<open>
  The suggestions made from one repo tag: the tag itself for the empty partial token;
  otherwise, for each position \<open>i\<close> of its path segments, those of the two candidates
  (the segments from \<open>i\<close> on joined again, and that string cut before its first
  \<open>:\<close> and then before its first \<open>@\<close>) that begin with the token.
\<close>

lemma getImages_repo_body_empty_token: "getImages_repo_body [] [] repo = [repo]"
  by (simp add: getImages_repo_body_def)

lemma getImages_repo_body_candidates:
  assumes "toComplete \<noteq> []"
  shows "getImages_repo_body toComplete [] repo =
           concat (map (\<lambda>i. filter (\<lambda>s. HasPrefix s toComplete)
                               [Join (drop i (Split repo CHR ''/'')) ''/'',
                                SplitN2_first (SplitN2_first (Join (drop i (Split repo CHR ''/'')) ''/'')
                                                 CHR '':'') CHR ''@''])
                       [0..<length (Split repo CHR ''/'')])"
proof -
  have "getImages_path_body toComplete paths [] =
          (\<lambda>i. filter (\<lambda>s. HasPrefix s toComplete)
                  [Join (drop i paths) ''/'',
                   SplitN2_first (SplitN2_first (Join (drop i paths) ''/'') CHR '':'') CHR ''@''])"
    for paths
    by (rule ext) (simp add: getImages_path_body_def Let_def)
  then show ?thesis
    using getImages_repo_body_paths [OF assms, of "[]" repo] by simp
qed

text \<open>
  C3. The claim: the second candidate is the joined suffix with the trailing
  \<open>:tag\<close> or \<open>@digest\<close> stripped. For the repo tag \<open>localhost:5000/app:v1\<close> and
  the partial token \<open>lo\<close> that is \<open>localhost:5000/app\<close>, which begins with the token;
  the code, which cuts before the first colon, offers \<open>localhost\<close> instead.
\<close>

theorem getImages_registry_with_port:
  "getImages (Inr [\<lparr>ImageID = ''0123456789abcdef'', RepoTags = [''localhost:5000/app:v1'']\<rparr>]) ''lo''
     = Inr ([''localhost:5000/app:v1'', ''localhost''], ShellCompDirectiveNoFileComp) \<and>
   HasPrefix ''localhost:5000/app'' ''lo''"
  by code_simp

subsection \<open>AutocompleteNamespace and AutocompleteUserNamespace\<close>

lemma find_first_unique:
  assumes "key \<in> set keys" and "P key" and "\<forall>k'\<in>set keys. P k' \<longrightarrow> k' = key"
  shows "find P keys = Some key"
  using assms
proof (induction keys)
  case Nil
  then show ?case by simp
next
  case (Cons a keys)
  show ?case
  proof (cases "P a")
    case True
    with Cons.prems(3) have "a = key" by simp
    with True show ?thesis by simp
  next
    case False
    with Cons.prems(1,2) have a: "key \<in> set keys" by auto
    from Cons.prems(3) have b: "\<forall>k'\<in>set keys. P k' \<longrightarrow> k' = key" by simp
    have "find P keys = Some key" by (rule Cons.IH [OF a Cons.prems(2) b])
    with False show ?thesis by simp
  qed
qed

lemma completeKeyValues_loop_no_match:
  "(\<forall>key\<in>set keys. \<not> HasPrefix toComplete key \<and> \<not> HasPrefix key toComplete) \<Longrightarrow>
   completeKeyValues_loop toComplete k keys suggestions directive = Inr (suggestions, directive)"
  by (induction keys) (simp_all split: option.splits)


lemma namespace_kv_values:
  "namespace_kv ContainerList ''container:''
     = Some (Some (\<lambda>s. getContainers ContainerList s completeDefault []))"
  "namespace_kv ContainerList ''ns:'' = Some (Some (\<lambda>s. Inr ([], ShellCompDirectiveDefault)))"
  "namespace_kv ContainerList ''host'' = Some None"
  "namespace_kv ContainerList ''private'' = Some None"
  by (simp_all add: namespace_kv_def)

lemma namespace_find:
  assumes "set order = {''container:'', ''ns:'', ''host'', ''private''}"
  shows "find (HasPrefix (''ns:'' @ rest)) order = Some ''ns:''"
    and "find (HasPrefix (''container:'' @ rest)) order = Some ''container:''"
    and "find (HasPrefix ''host'') order = Some ''host''"
    and "\<forall>key\<in>set order. \<not> HasPrefix ''zz'' key \<and> \<not> HasPrefix key ''zz''"
proof -
  show "find (HasPrefix (''ns:'' @ rest)) order = Some ''ns:''"
  proof (rule find_first_unique)
    show "''ns:'' \<in> set order" by (simp add: assms)
    show "HasPrefix (''ns:'' @ rest) ''ns:''" by (simp add: HasPrefix_prefix)
    show "\<forall>k'\<in>set order. HasPrefix (''ns:'' @ rest) k' \<longrightarrow> k' = ''ns:''"
      by (simp add: assms HasPrefix_prefix)
  qed
  show "find (HasPrefix (''container:'' @ rest)) order = Some ''container:''"
  proof (rule find_first_unique)
    show "''container:'' \<in> set order" by (simp add: assms)
    show "HasPrefix (''container:'' @ rest) ''container:''" by (simp add: HasPrefix_prefix)
    show "\<forall>k'\<in>set order. HasPrefix (''container:'' @ rest) k' \<longrightarrow> k' = ''container:''"
      by (simp add: assms HasPrefix_prefix)
  qed
  show "find (HasPrefix ''host'') order = Some ''host''"
  proof (rule find_first_unique)
    show "''host'' \<in> set order" by (simp add: assms)
    show "HasPrefix ''host'' ''host''" by (simp add: HasPrefix_prefix)
    show "\<forall>k'\<in>set order. HasPrefix ''host'' k' \<longrightarrow> k' = ''host''"
      by (simp add: assms HasPrefix_prefix)
  qed
  show "\<forall>key\<in>set order. \<not> HasPrefix ''zz'' key \<and> \<not> HasPrefix key ''zz''"
    by (simp add: assms HasPrefix_prefix)
qed

lemma AutocompleteNamespace_ns:
  assumes "set order = {''container:'', ''ns:'', ''host'', ''private''}"
  shows "AutocompleteNamespace order ContainerList (''ns:'' @ rest) = Inr ([], ShellCompDirectiveDefault)"
proof -
  have "completeKeyValues_loop (''ns:'' @ rest) (namespace_kv ContainerList) order []
          ShellCompDirectiveNoFileComp =
        (case Some (\<lambda>s. Inr ([], ShellCompDirectiveDefault)) of
           Some f \<Rightarrow>
             (case f (drop (length ''ns:'') (''ns:'' @ rest)) of
                Inl p \<Rightarrow> Inl p
              | Inr (nested, dir) \<Rightarrow> Inr (prefixSlice ''ns:'' nested, dir))
         | None \<Rightarrow> Inr ([], ShellCompDirectiveNoFileComp))"
    using namespace_find(1) [OF assms] namespace_kv_values(2)
    by (rule completeKeyValues_loop_delegate)
  then show ?thesis
    by (simp add: AutocompleteNamespace_def completeKeyValues_def prefixSlice_def)
qed

lemma AutocompleteNamespace_container:
  assumes "set order = {''container:'', ''ns:'', ''host'', ''private''}"
  shows "AutocompleteNamespace order ContainerList (''container:'' @ rest) =
           (case getContainers ContainerList rest completeDefault [] of
              Inl p \<Rightarrow> Inl p
            | Inr (names, directive) \<Rightarrow> Inr (map (\<lambda>x. ''container:'' @ x) names, directive))"
proof -
  have "completeKeyValues_loop (''container:'' @ rest) (namespace_kv ContainerList) order []
          ShellCompDirectiveNoFileComp =
        (case Some (\<lambda>s. getContainers ContainerList s completeDefault []) of
           Some f \<Rightarrow>
             (case f (drop (length ''container:'') (''container:'' @ rest)) of
                Inl p \<Rightarrow> Inl p
              | Inr (nested, dir) \<Rightarrow> Inr (prefixSlice ''container:'' nested, dir))
         | None \<Rightarrow> Inr ([], ShellCompDirectiveNoFileComp))"
    using namespace_find(2) [OF assms] namespace_kv_values(1)
    by (rule completeKeyValues_loop_delegate)
  then show ?thesis
    by (simp add: AutocompleteNamespace_def completeKeyValues_def prefixSlice_def
        split: sum.splits)
qed

lemma AutocompleteNamespace_host:
  assumes "set order = {''container:'', ''ns:'', ''host'', ''private''}"
  shows "AutocompleteNamespace order ContainerList ''host'' = Inr ([], ShellCompDirectiveNoFileComp)"
proof -
  have "completeKeyValues_loop ''host'' (namespace_kv ContainerList) order []
          ShellCompDirectiveNoFileComp =
        (case None of
           Some f \<Rightarrow>
             (case f (drop (length ''host'') ''host'') of
                Inl p \<Rightarrow> Inl p
              | Inr (nested, dir) \<Rightarrow> Inr (prefixSlice ''host'' nested, dir))
         | None \<Rightarrow> Inr ([], ShellCompDirectiveNoFileComp))"
    using namespace_find(3) [OF assms] namespace_kv_values(3)
    by (rule completeKeyValues_loop_delegate)
  then show ?thesis
    by (simp add: AutocompleteNamespace_def completeKeyValues_def)
qed

lemma AutocompleteNamespace_no_match:
  assumes "set order = {''container:'', ''ns:'', ''host'', ''private''}"
  shows "AutocompleteNamespace order ContainerList ''zz'' = Inr ([], ShellCompDirectiveNoFileComp)"
  unfolding AutocompleteNamespace_def completeKeyValues_def
  by (rule completeKeyValues_loop_no_match) (rule namespace_find(4) [OF assms])

text \<open>
  C10. For every partial token and every enumeration order,
  \<open>AutocompleteUserNamespace\<close> returns the result of \<open>AutocompleteNamespace\<close> with
  \<open>auto\<close> and \<open>keep-id\<close> appended and the directive unchanged (a panic is passed
  on). The two literals are not filtered by the token: they are appended in the
  delegation branch (\<open>ns:\<close> followed by anything gives the two literals with the
  directive Default of the nested completer; \<open>container:\<close> followed by \<open>rest\<close>
  gives the containers matching \<open>rest\<close>, prefixed, and then the two literals), for a
  key typed in full, and for a token that matches no key.
\<close>

theorem AutocompleteUserNamespace_appends:
  "AutocompleteUserNamespace order ContainerList toComplete =
     (case AutocompleteNamespace order ContainerList toComplete of
        Inl p \<Rightarrow> Inl p
      | Inr (results, directive) \<Rightarrow> Inr (results @ [''auto'', ''keep-id''], directive)) \<and>
   (set order = dom (namespace_kv ContainerList) \<longrightarrow>
      AutocompleteNamespace order ContainerList (''ns:'' @ rest)
        = Inr ([], ShellCompDirectiveDefault) \<and>
      AutocompleteUserNamespace order ContainerList (''ns:'' @ rest)
        = Inr ([''auto'', ''keep-id''], ShellCompDirectiveDefault) \<and>
      AutocompleteUserNamespace order ContainerList (''container:'' @ rest)
        = (case getContainers ContainerList rest completeDefault [] of
             Inl p \<Rightarrow> Inl p
           | Inr (names, directive) \<Rightarrow>
               Inr (map (\<lambda>x. ''container:'' @ x) names @ [''auto'', ''keep-id''], directive)) \<and>
      AutocompleteUserNamespace order ContainerList ''host''
        = Inr ([''auto'', ''keep-id''], ShellCompDirectiveNoFileComp) \<and>
      AutocompleteUserNamespace order ContainerList ''zz''
        = Inr ([''auto'', ''keep-id''], ShellCompDirectiveNoFileComp))"
proof (intro conjI impI)
  show "AutocompleteUserNamespace order ContainerList toComplete =
     (case AutocompleteNamespace order ContainerList toComplete of
        Inl p \<Rightarrow> Inl p
      | Inr (results, directive) \<Rightarrow> Inr (results @ [''auto'', ''keep-id''], directive))"
    by (simp add: AutocompleteUserNamespace_def)
next
  assume "set order = dom (namespace_kv ContainerList)"
  then have o: "set order = {''container:'', ''ns:'', ''host'', ''private''}"
    by (simp add: dom_namespace_kv)
  show "AutocompleteNamespace order ContainerList (''ns:'' @ rest)
        = Inr ([], ShellCompDirectiveDefault)"
    by (rule AutocompleteNamespace_ns [OF o])
  show "AutocompleteUserNamespace order ContainerList (''ns:'' @ rest)
        = Inr ([''auto'', ''keep-id''], ShellCompDirectiveDefault)"
    unfolding AutocompleteUserNamespace_def AutocompleteNamespace_ns [OF o] by simp
  show "AutocompleteUserNamespace order ContainerList (''container:'' @ rest)
        = (case getContainers ContainerList rest completeDefault [] of
             Inl p \<Rightarrow> Inl p
           | Inr (names, directive) \<Rightarrow>
               Inr (map (\<lambda>x. ''container:'' @ x) names @ [''auto'', ''keep-id''], directive))"
    unfolding AutocompleteUserNamespace_def AutocompleteNamespace_container [OF o]
    by (simp split: sum.splits)
  show "AutocompleteUserNamespace order ContainerList ''host''
        = Inr ([''auto'', ''keep-id''], ShellCompDirectiveNoFileComp)"
    unfolding AutocompleteUserNamespace_def AutocompleteNamespace_host [OF o] by simp
  show "AutocompleteUserNamespace order ContainerList ''zz''
        = Inr ([''auto'', ''keep-id''], ShellCompDirectiveNoFileComp)"
    unfolding AutocompleteUserNamespace_def AutocompleteNamespace_no_match [OF o] by simp
qed

text \<open>
  C10 at the token \<open>ns:/proc/1/ns/user\<close>, with the keys enumerated in the order of
  their declaration.
\<close>

theorem AutocompleteUserNamespace_appends_witness:
  "set [''container:'', ''ns:'', ''host'', ''private''] = dom (namespace_kv (\<lambda>opts. Inr [])) \<and>
   AutocompleteUserNamespace [''container:'', ''ns:'', ''host'', ''private''] (\<lambda>opts. Inr [])
       ''ns:/proc/1/ns/user''
     = Inr ([''auto'', ''keep-id''], ShellCompDirectiveDefault)"
proof -
  have h: "set [''container:'', ''ns:'', ''host'', ''private''] = dom (namespace_kv (\<lambda>opts. Inr []))"
    by (simp add: dom_namespace_kv insert_commute)
  have "AutocompleteUserNamespace [''container:'', ''ns:'', ''host'', ''private''] (\<lambda>opts. Inr [])
       (''ns:'' @ ''/proc/1/ns/user'')
     = Inr ([''auto'', ''keep-id''], ShellCompDirectiveDefault)"
    using h AutocompleteUserNamespace_appends [where order = "[''container:'', ''ns:'', ''host'', ''private'']"
        and ContainerList = "\<lambda>opts. Inr []" and rest = "''/proc/1/ns/user''"]
    by blast
  with h show ?thesis by simp
qed

end
